theory Spec2Isabelle
  imports Main "HOL-Library.Word" "HOL-Library.Monad_Syntax"
begin

section \<open>The header mini\_ecs.h\<close>

text \<open>
  \<^verbatim>\<open>#define MAX_ENTITIES 1024\<close> (the default of the header; the snake program does not
  override it) and \<^verbatim>\<open>typedef unsigned int Entity\<close>, a 32-bit unsigned integer whose
  arithmetic wraps around.
\<close>

definition MAX_ENTITIES :: nat where
  "MAX_ENTITIES = 1024"

type_synonym Entity = "32 word"

subsection \<open>C arrays\<close>

text \<open>
  Every array of the header has \<^verbatim>\<open>MAX_ENTITIES\<close> elements. An array is a list; reading or
  writing at an index outside the array is undefined behaviour in C, which the model
  returns as \<open>None\<close>. Every operation below that indexes an array therefore has an
  \<open>option\<close> result, and \<open>None\<close> stands for "the C program has left its array".
\<close>

definition array_get :: "'a list \<Rightarrow> nat \<Rightarrow> 'a option" where
  "array_get xs i = (if i < length xs then Some (xs ! i) else None)"

definition array_set :: "'a list \<Rightarrow> nat \<Rightarrow> 'a \<Rightarrow> 'a list option" where
  "array_set xs i v = (if i < length xs then Some (xs[i := v]) else None)"

subsection \<open>Component stores\<close>

text \<open>
  \<^verbatim>\<open>MECS_DEFINE_COMPONENT(CompType, Name)\<close> declares the two parallel arrays
  \<^verbatim>\<open>CompType Name[MAX_ENTITIES]\<close> and \<^verbatim>\<open>bool Name_flag[MAX_ENTITIES]\<close>. The pair is a record;
  \<open>comp_data\<close> is the array \<^verbatim>\<open>Name\<close> and \<open>comp_flag\<close> the array \<^verbatim>\<open>Name_flag\<close>. The macros
  that take \<^verbatim>\<open>(World, Name)\<close> and paste the field names are functions of that pair.
\<close>

record 'a component =
  comp_data :: "'a list"
  comp_flag :: "bool list"

text \<open>\<^verbatim>\<open>#define MECS_HAS_COMPONENT(World, Name, e) ((World)->Name##_flag[(e)])\<close>\<close>

definition MECS_HAS_COMPONENT :: "'a component \<Rightarrow> Entity \<Rightarrow> bool option" where
  "MECS_HAS_COMPONENT c e = array_get (comp_flag c) (unat e)"

text \<open>
  \<^verbatim>\<open>(World)->Name[(e)] = (Value); (World)->Name##_flag[(e)] = true;\<close>
\<close>

definition MECS_SET_COMPONENT :: "'a component \<Rightarrow> Entity \<Rightarrow> 'a \<Rightarrow> 'a component option" where
  "MECS_SET_COMPONENT c e v = do {
     d \<leftarrow> array_set (comp_data c) (unat e) v;
     f \<leftarrow> array_set (comp_flag c) (unat e) True;
     Some (c\<lparr>comp_data := d, comp_flag := f\<rparr>)
   }"

text \<open>\<^verbatim>\<open>((World)->Name##_flag[(e)] = false)\<close>\<close>

definition MECS_CLEAR_COMPONENT :: "'a component \<Rightarrow> Entity \<Rightarrow> 'a component option" where
  "MECS_CLEAR_COMPONENT c e = do {
     f \<leftarrow> array_set (comp_flag c) (unat e) False;
     Some (c\<lparr>comp_flag := f\<rparr>)
   }"

text \<open>
  The value array is read directly in the source (\<^verbatim>\<open>game->position[e]\<close>); there is no
  macro for it. The read of slot \<open>e\<close> of a store:
\<close>

definition component_value :: "'a component \<Rightarrow> Entity \<Rightarrow> 'a option" where
  "component_value c e = array_get (comp_data c) (unat e)"

text \<open>A store as the C declaration sizes it: both arrays have \<^verbatim>\<open>MAX_ENTITIES\<close> elements.\<close>

definition component_sized :: "'a component \<Rightarrow> bool" where
  "component_sized c \<longleftrightarrow>
     length (comp_data c) = MAX_ENTITIES \<and> length (comp_flag c) = MAX_ENTITIES"

subsection \<open>Queries\<close>

text \<open>
  \<^verbatim>\<open>for (Entity e = 0; e < MAX_ENTITIES; ++e) if (C1_flag[e] && C2_flag[e]) body\<close>.
  The loop is a recursion on the counter \<open>e\<close>, a 32-bit word incremented with
  wrap-around as in C; the result lists the entities for which the guard holds, that is
  the entities the body runs on, in the order the loop reaches them. The stores are
  those at the start of the scan.
\<close>

function MECS_FOREACH_2_from :: "'a component \<Rightarrow> 'b component \<Rightarrow> Entity \<Rightarrow> Entity list" where
  "MECS_FOREACH_2_from c1 c2 e =
     (if unat e < MAX_ENTITIES
      then (if comp_flag c1 ! unat e \<and> comp_flag c2 ! unat e then [e] else [])
           @ MECS_FOREACH_2_from c1 c2 (e + 1)
      else [])"
  by pat_completeness auto
termination
proof (relation "measure (\<lambda>(c1, c2, e). MAX_ENTITIES - unat e)")
  show "wf (measure (\<lambda>(c1 :: 'a component, c2 :: 'b component, e :: Entity).
          MAX_ENTITIES - unat e))"
    by simp
next
  fix c1 :: "'a component" and c2 :: "'b component" and e :: Entity
  assume lt: "unat e < MAX_ENTITIES"
  then have "unat e + unat (1 :: Entity) < 2 ^ LENGTH(32)"
    by (simp add: MAX_ENTITIES_def)
  then have "unat (e + 1) = unat e + 1"
    using unat_add_lem [of e 1] by simp
  with lt show "((c1, c2, e + 1), (c1, c2, e))
      \<in> measure (\<lambda>(c1, c2, e). MAX_ENTITIES - unat e)"
    by simp
qed

function MECS_FOREACH_3_from ::
  "'a component \<Rightarrow> 'b component \<Rightarrow> 'c component \<Rightarrow> Entity \<Rightarrow> Entity list" where
  "MECS_FOREACH_3_from c1 c2 c3 e =
     (if unat e < MAX_ENTITIES
      then (if comp_flag c1 ! unat e \<and> comp_flag c2 ! unat e \<and> comp_flag c3 ! unat e
            then [e] else [])
           @ MECS_FOREACH_3_from c1 c2 c3 (e + 1)
      else [])"
  by pat_completeness auto
termination
proof (relation "measure (\<lambda>(c1, c2, c3, e). MAX_ENTITIES - unat e)")
  show "wf (measure (\<lambda>(c1 :: 'a component, c2 :: 'b component, c3 :: 'c component,
          e :: Entity). MAX_ENTITIES - unat e))"
    by simp
next
  fix c1 :: "'a component" and c2 :: "'b component" and c3 :: "'c component"
    and e :: Entity
  assume lt: "unat e < MAX_ENTITIES"
  then have "unat e + unat (1 :: Entity) < 2 ^ LENGTH(32)"
    by (simp add: MAX_ENTITIES_def)
  then have "unat (e + 1) = unat e + 1"
    using unat_add_lem [of e 1] by simp
  with lt show "((c1, c2, c3, e + 1), (c1, c2, c3, e))
      \<in> measure (\<lambda>(c1, c2, c3, e). MAX_ENTITIES - unat e)"
    by simp
qed

declare MECS_FOREACH_2_from.simps [simp del]
declare MECS_FOREACH_3_from.simps [simp del]

text \<open>The loops start at \<^verbatim>\<open>Entity e = 0\<close>.\<close>

definition MECS_FOREACH_2 :: "'a component \<Rightarrow> 'b component \<Rightarrow> Entity list" where
  "MECS_FOREACH_2 c1 c2 = MECS_FOREACH_2_from c1 c2 0"

definition MECS_FOREACH_3 :: "'a component \<Rightarrow> 'b component \<Rightarrow> 'c component \<Rightarrow> Entity list" where
  "MECS_FOREACH_3 c1 c2 c3 = MECS_FOREACH_3_from c1 c2 c3 0"

text \<open>
  For comparison with the loops: the entity slots \<open>n, \<dots>, MAX_ENTITIES - 1\<close> in ascending
  order.
\<close>

definition slots_from :: "nat \<Rightarrow> Entity list" where
  "slots_from n = map of_nat [n..<MAX_ENTITIES]"

subsection \<open>The entity allocator\<close>

text \<open>
  \<^verbatim>\<open>typedef struct { Entity next_entity; Entity free_list[MAX_ENTITIES]; size_t free_count; }
  EntityManager\<close>. The counter \<open>next_entity\<close> is a 32-bit word: \<^verbatim>\<open>next_entity++\<close> wraps.
  \<open>free_count\<close> is a natural number: the code decrements it only when it is positive
  and increments it only when it is below \<^verbatim>\<open>MAX_ENTITIES\<close>, so no width of \<^verbatim>\<open>size_t\<close>
  changes what it computes.
\<close>

record EntityManager =
  next_entity :: Entity
  free_list :: "Entity list"
  free_count :: nat

text \<open>
  \<^verbatim>\<open>if (em->free_count > 0) return em->free_list[--em->free_count];
  else return em->next_entity++;\<close>
\<close>

definition mecs_entity_create :: "EntityManager \<Rightarrow> (Entity \<times> EntityManager) option" where
  "mecs_entity_create m =
     (if free_count m > 0 then do {
        let m' = m\<lparr>free_count := free_count m - 1\<rparr>;
        e \<leftarrow> array_get (free_list m') (free_count m');
        Some (e, m')
      } else Some (next_entity m, m\<lparr>next_entity := next_entity m + 1\<rparr>))"

text \<open>
  \<^verbatim>\<open>if (em->free_count < MAX_ENTITIES) em->free_list[em->free_count++] = e;\<close>
\<close>

definition mecs_entity_destroy :: "EntityManager \<Rightarrow> Entity \<Rightarrow> EntityManager option" where
  "mecs_entity_destroy m e =
     (if free_count m < MAX_ENTITIES then do {
        fl \<leftarrow> array_set (free_list m) (free_count m) e;
        Some (m\<lparr>free_list := fl, free_count := free_count m + 1\<rparr>)
      } else Some m)"

text \<open>The allocator as the C declaration sizes it.\<close>

definition manager_sized :: "EntityManager \<Rightarrow> bool" where
  "manager_sized m \<longleftrightarrow> length (free_list m) = MAX_ENTITIES"

text \<open>
  The free list is used as a stack: its content is the first \<open>free_count\<close> elements of
  the array, the top being the last of them.
\<close>

definition free_stack :: "EntityManager \<Rightarrow> Entity list" where
  "free_stack m = take (free_count m) (free_list m)"

subsection \<open>Sequences of allocator calls\<close>

text \<open>
  A caller's sequence of \<^verbatim>\<open>mecs_entity_create\<close> and \<^verbatim>\<open>mecs_entity_destroy\<close> calls, run on
  the allocator together with the list of live identifiers: an identifier enters the
  list when a create returns it and one occurrence of it leaves the list when it is
  destroyed. The caller's obligations are checked before each call: a create needs
  fewer than \<^verbatim>\<open>MAX_ENTITIES\<close> live entities, a destroy needs a live identifier. A run
  ends with \<open>PreconditionViolated\<close> at the first call that breaks them and with
  \<open>UndefinedBehaviour\<close> when the allocator leaves its array.
\<close>

datatype alloc_call = Create | Destroy Entity

datatype failure = PreconditionViolated | UndefinedBehaviour

fun alloc_step ::
  "alloc_call \<Rightarrow> EntityManager \<times> Entity list \<Rightarrow> failure + EntityManager \<times> Entity list" where
  "alloc_step Create (m, live) =
     (if length live < MAX_ENTITIES then
        (case mecs_entity_create m of
           None \<Rightarrow> Inl UndefinedBehaviour
         | Some (e, m') \<Rightarrow> Inr (m', live @ [e]))
      else Inl PreconditionViolated)"
| "alloc_step (Destroy e) (m, live) =
     (if e \<in> set live then
        (case mecs_entity_destroy m e of
           None \<Rightarrow> Inl UndefinedBehaviour
         | Some m' \<Rightarrow> Inr (m', remove1 e live))
      else Inl PreconditionViolated)"

fun run_calls ::
  "alloc_call list \<Rightarrow> EntityManager \<times> Entity list \<Rightarrow> failure + EntityManager \<times> Entity list" where
  "run_calls [] s = Inr s"
| "run_calls (c # cs) s =
     (case alloc_step c s of Inl f \<Rightarrow> Inl f | Inr s' \<Rightarrow> run_calls cs s')"

text \<open>
  The invariant of such runs: the live identifiers and the free stack are disjoint and
  without repetition, all of them are below \<open>next_entity\<close>, and they are as many as
  \<open>next_entity\<close> says, which has not passed \<^verbatim>\<open>MAX_ENTITIES\<close>.
\<close>

definition alloc_inv :: "EntityManager \<times> Entity list \<Rightarrow> bool" where
  "alloc_inv s \<longleftrightarrow>
     (let m = fst s; live = snd s in
        manager_sized m
        \<and> length live + free_count m = unat (next_entity m)
        \<and> unat (next_entity m) \<le> MAX_ENTITIES
        \<and> distinct (live @ free_stack m)
        \<and> list_all (\<lambda>e. unat e < unat (next_entity m)) (live @ free_stack m))"

section \<open>The world of mecs\_snake.c\<close>

text \<open>
  The component types of the snake program. \<^verbatim>\<open>Collidable\<close>, \<^verbatim>\<open>Consumer\<close> and
  \<^verbatim>\<open>Interactable\<close> are empty structs; \<^verbatim>\<open>int\<close> and \<^verbatim>\<open>char\<close> are machine words. The fields
  \<^verbatim>\<open>x\<close> and \<^verbatim>\<open>y\<close> of \<^verbatim>\<open>Position\<close> are named \<open>pos_x\<close> and \<open>pos_y\<close> here.
\<close>

type_synonym Collidable = unit
type_synonym Consumer = unit
type_synonym Interactable = unit

datatype Direction = UP | DOWN | LEFT | RIGHT

record Drawable =
  symbol :: "8 word"

record Edible =
  points :: "32 word"
  grows :: bool
  resets :: bool

record Position =
  pos_x :: "32 word"
  pos_y :: "32 word"

text \<open>
  \<^verbatim>\<open>typedef struct { EntityManager em; MECS_DEFINE_COMPONENT(Collidable, collidable); ...
  int score; } SnakeWorld\<close>, the fields in the order of the source.
\<close>

record SnakeWorld =
  em :: EntityManager
  collidable :: "Collidable component"
  consumer :: "Consumer component"
  direction :: "Direction component"
  drawable :: "Drawable component"
  edible :: "Edible component"
  follower :: "Entity component"
  interactable :: "Interactable component"
  position :: "Position component"
  score :: "32 word"

text \<open>
  \<^verbatim>\<open>new_game\<close> returns \<^verbatim>\<open>calloc(1, sizeof(SnakeWorld))\<close>: every byte is zero, so every
  counter is 0, every flag false, every direction \<^verbatim>\<open>UP\<close> (the enumerator 0).
\<close>

definition zero_component :: "'a \<Rightarrow> 'a component" where
  "zero_component z =
     \<lparr>comp_data = replicate MAX_ENTITIES z, comp_flag = replicate MAX_ENTITIES False\<rparr>"

definition new_game :: SnakeWorld where
  "new_game =
     \<lparr>em = \<lparr>next_entity = 0, free_list = replicate MAX_ENTITIES 0, free_count = 0\<rparr>,
      collidable = zero_component (),
      consumer = zero_component (),
      direction = zero_component UP,
      drawable = zero_component \<lparr>symbol = 0\<rparr>,
      edible = zero_component \<lparr>points = 0, grows = False, resets = False\<rparr>,
      follower = zero_component 0,
      interactable = zero_component (),
      position = zero_component \<lparr>pos_x = 0, pos_y = 0\<rparr>,
      score = 0\<rparr>"

subsection \<open>The macros at each component name\<close>

text \<open>
  \<^verbatim>\<open>MECS_SET_COMPONENT(game, position, e, v)\<close> and its seven siblings: the macro applied
  to one pair of arrays of the world, the rest of the world untouched.
\<close>

definition set_collidable :: "SnakeWorld \<Rightarrow> Entity \<Rightarrow> Collidable \<Rightarrow> SnakeWorld option" where
  "set_collidable game e v = do {
     c \<leftarrow> MECS_SET_COMPONENT (collidable game) e v; Some (game\<lparr>collidable := c\<rparr>) }"

definition set_consumer :: "SnakeWorld \<Rightarrow> Entity \<Rightarrow> Consumer \<Rightarrow> SnakeWorld option" where
  "set_consumer game e v = do {
     c \<leftarrow> MECS_SET_COMPONENT (consumer game) e v; Some (game\<lparr>consumer := c\<rparr>) }"

definition set_direction :: "SnakeWorld \<Rightarrow> Entity \<Rightarrow> Direction \<Rightarrow> SnakeWorld option" where
  "set_direction game e v = do {
     c \<leftarrow> MECS_SET_COMPONENT (direction game) e v; Some (game\<lparr>direction := c\<rparr>) }"

definition set_drawable :: "SnakeWorld \<Rightarrow> Entity \<Rightarrow> Drawable \<Rightarrow> SnakeWorld option" where
  "set_drawable game e v = do {
     c \<leftarrow> MECS_SET_COMPONENT (drawable game) e v; Some (game\<lparr>drawable := c\<rparr>) }"

definition set_edible :: "SnakeWorld \<Rightarrow> Entity \<Rightarrow> Edible \<Rightarrow> SnakeWorld option" where
  "set_edible game e v = do {
     c \<leftarrow> MECS_SET_COMPONENT (edible game) e v; Some (game\<lparr>edible := c\<rparr>) }"

definition set_follower :: "SnakeWorld \<Rightarrow> Entity \<Rightarrow> Entity \<Rightarrow> SnakeWorld option" where
  "set_follower game e v = do {
     c \<leftarrow> MECS_SET_COMPONENT (follower game) e v; Some (game\<lparr>follower := c\<rparr>) }"

definition set_interactable :: "SnakeWorld \<Rightarrow> Entity \<Rightarrow> Interactable \<Rightarrow> SnakeWorld option" where
  "set_interactable game e v = do {
     c \<leftarrow> MECS_SET_COMPONENT (interactable game) e v; Some (game\<lparr>interactable := c\<rparr>) }"

definition set_position :: "SnakeWorld \<Rightarrow> Entity \<Rightarrow> Position \<Rightarrow> SnakeWorld option" where
  "set_position game e v = do {
     c \<leftarrow> MECS_SET_COMPONENT (position game) e v; Some (game\<lparr>position := c\<rparr>) }"

text \<open>\<^verbatim>\<open>MECS_CLEAR_COMPONENT(game, Name, e)\<close> at each name.\<close>

definition clear_collidable :: "SnakeWorld \<Rightarrow> Entity \<Rightarrow> SnakeWorld option" where
  "clear_collidable game e = do {
     c \<leftarrow> MECS_CLEAR_COMPONENT (collidable game) e; Some (game\<lparr>collidable := c\<rparr>) }"

definition clear_consumer :: "SnakeWorld \<Rightarrow> Entity \<Rightarrow> SnakeWorld option" where
  "clear_consumer game e = do {
     c \<leftarrow> MECS_CLEAR_COMPONENT (consumer game) e; Some (game\<lparr>consumer := c\<rparr>) }"

definition clear_direction :: "SnakeWorld \<Rightarrow> Entity \<Rightarrow> SnakeWorld option" where
  "clear_direction game e = do {
     c \<leftarrow> MECS_CLEAR_COMPONENT (direction game) e; Some (game\<lparr>direction := c\<rparr>) }"

definition clear_drawable :: "SnakeWorld \<Rightarrow> Entity \<Rightarrow> SnakeWorld option" where
  "clear_drawable game e = do {
     c \<leftarrow> MECS_CLEAR_COMPONENT (drawable game) e; Some (game\<lparr>drawable := c\<rparr>) }"

definition clear_edible :: "SnakeWorld \<Rightarrow> Entity \<Rightarrow> SnakeWorld option" where
  "clear_edible game e = do {
     c \<leftarrow> MECS_CLEAR_COMPONENT (edible game) e; Some (game\<lparr>edible := c\<rparr>) }"

definition clear_follower :: "SnakeWorld \<Rightarrow> Entity \<Rightarrow> SnakeWorld option" where
  "clear_follower game e = do {
     c \<leftarrow> MECS_CLEAR_COMPONENT (follower game) e; Some (game\<lparr>follower := c\<rparr>) }"

definition clear_interactable :: "SnakeWorld \<Rightarrow> Entity \<Rightarrow> SnakeWorld option" where
  "clear_interactable game e = do {
     c \<leftarrow> MECS_CLEAR_COMPONENT (interactable game) e; Some (game\<lparr>interactable := c\<rparr>) }"

definition clear_position :: "SnakeWorld \<Rightarrow> Entity \<Rightarrow> SnakeWorld option" where
  "clear_position game e = do {
     c \<leftarrow> MECS_CLEAR_COMPONENT (position game) e; Some (game\<lparr>position := c\<rparr>) }"

subsection \<open>Destroying an entity\<close>

text \<open>\<^verbatim>\<open>clear_components\<close>: the eight clears, in the order of the source.\<close>

definition clear_components :: "SnakeWorld \<Rightarrow> Entity \<Rightarrow> SnakeWorld option" where
  "clear_components game e = do {
     g1 \<leftarrow> clear_collidable game e;
     g2 \<leftarrow> clear_consumer g1 e;
     g3 \<leftarrow> clear_direction g2 e;
     g4 \<leftarrow> clear_drawable g3 e;
     g5 \<leftarrow> clear_edible g4 e;
     g6 \<leftarrow> clear_follower g5 e;
     g7 \<leftarrow> clear_interactable g6 e;
     clear_position g7 e
   }"

text \<open>
  \<^verbatim>\<open>clear_components(game, e); mecs_entity_destroy(&game->em, e);\<close>
\<close>

definition destroy_entity :: "SnakeWorld \<Rightarrow> Entity \<Rightarrow> SnakeWorld option" where
  "destroy_entity game e = do {
     g \<leftarrow> clear_components game e;
     m \<leftarrow> mecs_entity_destroy (em g) e;
     Some (g\<lparr>em := m\<rparr>)
   }"

text \<open>A world as the C declaration sizes it.\<close>

definition world_sized :: "SnakeWorld \<Rightarrow> bool" where
  "world_sized game \<longleftrightarrow>
     manager_sized (em game) \<and>
     component_sized (collidable game) \<and> component_sized (consumer game) \<and>
     component_sized (direction game) \<and> component_sized (drawable game) \<and>
     component_sized (edible game) \<and> component_sized (follower game) \<and>
     component_sized (interactable game) \<and> component_sized (position game)"

text \<open>\<^verbatim>\<open>#define INVALID_ENTITY ((Entity)-1)\<close>\<close>

definition INVALID_ENTITY :: Entity where
  "INVALID_ENTITY = - 1"

text \<open>The allocator of a freshly made world.\<close>

definition initial_manager :: EntityManager where
  "initial_manager = em new_game"

subsection \<open>What a mutation leaves alone\<close>

text \<open>
  Two arrays of the same size that agree at every index other than \<open>i\<close>, and two stores
  whose value and flag arrays do.
\<close>

definition same_but_index :: "'a list \<Rightarrow> 'a list \<Rightarrow> nat \<Rightarrow> bool" where
  "same_but_index xs ys i \<longleftrightarrow>
     length ys = length xs \<and> (\<forall>j \<in> {0..<length xs}. j \<noteq> i \<longrightarrow> ys ! j = xs ! j)"

definition same_but_slot :: "'a component \<Rightarrow> 'a component \<Rightarrow> nat \<Rightarrow> bool" where
  "same_but_slot c c' i \<longleftrightarrow>
     same_but_index (comp_data c) (comp_data c') i
     \<and> same_but_index (comp_flag c) (comp_flag c') i"

text \<open>The eight stores of two worlds agree at every slot other than \<open>i\<close>.\<close>

definition stores_same_but_slot :: "SnakeWorld \<Rightarrow> SnakeWorld \<Rightarrow> nat \<Rightarrow> bool" where
  "stores_same_but_slot g g' i \<longleftrightarrow>
     same_but_slot (collidable g) (collidable g') i
     \<and> same_but_slot (consumer g) (consumer g') i
     \<and> same_but_slot (direction g) (direction g') i
     \<and> same_but_slot (drawable g) (drawable g') i
     \<and> same_but_slot (edible g) (edible g') i
     \<and> same_but_slot (follower g) (follower g') i
     \<and> same_but_slot (interactable g) (interactable g') i
     \<and> same_but_slot (position g) (position g') i"

text \<open>The store that \<^verbatim>\<open>MECS_CLEAR_COMPONENT\<close> returns for an entity within the arrays.\<close>

definition cleared :: "'a component \<Rightarrow> Entity \<Rightarrow> 'a component" where
  "cleared c e = c\<lparr>comp_flag := (comp_flag c)[unat e := False]\<rparr>"

text \<open>No component of the eight is present at \<open>e\<close>.\<close>

definition no_component_at :: "SnakeWorld \<Rightarrow> Entity \<Rightarrow> bool" where
  "no_component_at g e \<longleftrightarrow>
     MECS_HAS_COMPONENT (collidable g) e = Some False
     \<and> MECS_HAS_COMPONENT (consumer g) e = Some False
     \<and> MECS_HAS_COMPONENT (direction g) e = Some False
     \<and> MECS_HAS_COMPONENT (drawable g) e = Some False
     \<and> MECS_HAS_COMPONENT (edible g) e = Some False
     \<and> MECS_HAS_COMPONENT (follower g) e = Some False
     \<and> MECS_HAS_COMPONENT (interactable g) e = Some False
     \<and> MECS_HAS_COMPONENT (position g) e = Some False"

section \<open>Arrays and stores: basic facts\<close>

lemma array_set_Some: "i < length xs \<Longrightarrow> array_set xs i v = Some (xs[i := v])"
  by (simp add: array_set_def)

lemma array_get_Some: "i < length xs \<Longrightarrow> array_get xs i = Some (xs ! i)"
  by (simp add: array_get_def)

lemma flag_update_same: "\<not> xs ! i \<Longrightarrow> xs[i := False] = xs"
  by (metis list_update_id)

lemma MECS_SET_COMPONENT_sized:
  assumes "component_sized c" and "unat e < MAX_ENTITIES"
  shows "MECS_SET_COMPONENT c e v =
           Some (c\<lparr>comp_data := (comp_data c)[unat e := v],
                   comp_flag := (comp_flag c)[unat e := True]\<rparr>)"
  using assms by (simp add: MECS_SET_COMPONENT_def component_sized_def array_set_Some)

lemma MECS_CLEAR_COMPONENT_sized:
  assumes "component_sized c" and "unat e < MAX_ENTITIES"
  shows "MECS_CLEAR_COMPONENT c e = Some (c\<lparr>comp_flag := (comp_flag c)[unat e := False]\<rparr>)"
  using assms by (simp add: MECS_CLEAR_COMPONENT_def component_sized_def array_set_Some)

lemma component_sized_set:
  "component_sized c \<Longrightarrow>
   component_sized (c\<lparr>comp_data := (comp_data c)[i := v], comp_flag := (comp_flag c)[i := b]\<rparr>)"
  by (simp add: component_sized_def)

lemma component_sized_clear:
  "component_sized c \<Longrightarrow> component_sized (c\<lparr>comp_flag := (comp_flag c)[i := b]\<rparr>)"
  by (simp add: component_sized_def)

lemma component_sized_zero: "component_sized (zero_component z)"
  by (simp add: component_sized_def zero_component_def)

section \<open>Set, has and clear on one store\<close>

text \<open>
  Claim C6. For every store, every entity \<open>e\<close> below \<^verbatim>\<open>MAX_ENTITIES\<close> and every value \<open>v\<close>,
  \<^verbatim>\<open>MECS_SET_COMPONENT\<close> succeeds, writes \<open>v\<close> at index \<open>e\<close> of the value array and \<open>True\<close>
  at index \<open>e\<close> of the flag array; afterwards \<^verbatim>\<open>MECS_HAS_COMPONENT\<close> is true at \<open>e\<close> and
  the value read at \<open>e\<close> is \<open>v\<close>. A value \<open>u\<close> set before is overwritten: setting \<open>u\<close>
  and then \<open>v\<close> gives the store that setting \<open>v\<close> alone gives.
\<close>

theorem set_then_get:
  assumes "component_sized c" and "unat e < MAX_ENTITIES"
  shows "\<exists>c'. MECS_SET_COMPONENT c e v = Some c'
           \<and> comp_data c' = (comp_data c)[unat e := v]
           \<and> comp_flag c' = (comp_flag c)[unat e := True]
           \<and> MECS_HAS_COMPONENT c' e = Some True
           \<and> component_value c' e = Some v
           \<and> (MECS_SET_COMPONENT c e u \<bind> (\<lambda>c1. MECS_SET_COMPONENT c1 e v)) = Some c'"
  using assms
  by (simp add: MECS_SET_COMPONENT_sized component_sized_set MECS_HAS_COMPONENT_def
      component_value_def array_get_Some component_sized_def)

theorem set_then_get_witness:
  "component_sized (zero_component (0 :: nat)) \<and> unat (5 :: Entity) < MAX_ENTITIES
   \<and> (\<exists>c'. MECS_SET_COMPONENT (zero_component (0 :: nat)) 5 7 = Some c'
           \<and> MECS_HAS_COMPONENT c' 5 = Some True
           \<and> component_value c' 5 = Some 7
           \<and> (MECS_SET_COMPONENT (zero_component 0) 5 3
                \<bind> (\<lambda>c1. MECS_SET_COMPONENT c1 5 7)) = Some c')"
proof -
  have s: "component_sized (zero_component (0 :: nat))"
    by (rule component_sized_zero)
  have r: "unat (5 :: Entity) < MAX_ENTITIES"
    by (simp add: MAX_ENTITIES_def)
  from set_then_get [OF s r, of 7 3] obtain c' where
    "MECS_SET_COMPONENT (zero_component (0 :: nat)) 5 7 = Some c'"
    "MECS_HAS_COMPONENT c' 5 = Some True"
    "component_value c' 5 = Some 7"
    "(MECS_SET_COMPONENT (zero_component 0) 5 3
        \<bind> (\<lambda>c1. MECS_SET_COMPONENT c1 5 7)) = Some c'"
    by blast
  with s r show ?thesis by blast
qed

text \<open>
  Claim C7. For every store and every entity \<open>e\<close> below \<^verbatim>\<open>MAX_ENTITIES\<close>,
  \<^verbatim>\<open>MECS_CLEAR_COMPONENT\<close> succeeds and leaves \<^verbatim>\<open>MECS_HAS_COMPONENT\<close> false at \<open>e\<close>; clearing
  the cleared store again returns the same store; and when the component was absent
  already, the clear returns the store it was given.
\<close>

theorem clear_then_absent:
  assumes "component_sized c" and "unat e < MAX_ENTITIES"
  shows "\<exists>c'. MECS_CLEAR_COMPONENT c e = Some c'
           \<and> MECS_HAS_COMPONENT c' e = Some False
           \<and> MECS_CLEAR_COMPONENT c' e = Some c'
           \<and> (MECS_HAS_COMPONENT c e = Some False \<longrightarrow> c' = c)"
  using assms
  by (auto simp add: MECS_CLEAR_COMPONENT_sized component_sized_clear MECS_HAS_COMPONENT_def
      array_get_Some component_sized_def array_get_def flag_update_same split: if_splits)

theorem clear_then_absent_witness:
  "component_sized (zero_component (0 :: nat)) \<and> unat (5 :: Entity) < MAX_ENTITIES
   \<and> MECS_HAS_COMPONENT (zero_component (0 :: nat)) 5 = Some False
   \<and> MECS_CLEAR_COMPONENT (zero_component (0 :: nat)) 5 = Some (zero_component 0)"
proof -
  have s: "component_sized (zero_component (0 :: nat))"
    by (rule component_sized_zero)
  have r: "unat (5 :: Entity) < MAX_ENTITIES"
    by (simp add: MAX_ENTITIES_def)
  have h: "MECS_HAS_COMPONENT (zero_component (0 :: nat)) 5 = Some False"
    by (simp add: MECS_HAS_COMPONENT_def array_get_def zero_component_def MAX_ENTITIES_def)
  from clear_then_absent [OF s r] h
  have "MECS_CLEAR_COMPONENT (zero_component (0 :: nat)) 5 = Some (zero_component 0)"
    by auto
  with s r h show ?thesis by blast
qed


section \<open>The allocator, one call at a time\<close>

lemma unat_Entity_succ:
  fixes e :: Entity
  assumes "unat e < MAX_ENTITIES"
  shows "unat (e + 1) = unat e + 1"
proof -
  from assms have "unat e + unat (1 :: Entity) < 2 ^ LENGTH(32)"
    by (simp add: MAX_ENTITIES_def)
  then show ?thesis
    using unat_add_lem [of e 1] by simp
qed

lemma manager_sized_initial: "manager_sized initial_manager"
  by (simp add: manager_sized_def initial_manager_def new_game_def)

text \<open>
  Claim C5. In an allocator whose free count is within the array and which is below
  capacity (the free stack is not empty or \<open>next_entity\<close> is below \<^verbatim>\<open>MAX_ENTITIES\<close>):
  when the free count is positive,
  \<^verbatim>\<open>mecs_entity_create\<close> returns the top of the free stack and only decrements the free
  count (the stack loses exactly that top, \<open>next_entity\<close> and the array are kept);
  otherwise it returns \<open>next_entity\<close> and only increments \<open>next_entity\<close>, by one without
  wrap-around.
\<close>

theorem create_algorithm:
  assumes "manager_sized m" and "free_count m \<le> MAX_ENTITIES"
    and "free_count m > 0 \<or> unat (next_entity m) < MAX_ENTITIES"
  shows "(free_count m > 0 \<longrightarrow>
            mecs_entity_create m =
              Some (last (free_stack m), m\<lparr>free_count := free_count m - 1\<rparr>)
            \<and> free_stack (m\<lparr>free_count := free_count m - 1\<rparr>) = butlast (free_stack m))
       \<and> (free_count m = 0 \<longrightarrow>
            mecs_entity_create m =
              Some (next_entity m, m\<lparr>next_entity := next_entity m + 1\<rparr>)
            \<and> unat (next_entity m + 1) = unat (next_entity m) + 1)"
proof (intro conjI impI)
  assume pos: "0 < free_count m"
  with assms have lt: "free_count m - 1 < length (free_list m)"
    by (simp add: manager_sized_def)
  from pos have "free_count m = Suc (free_count m - 1)" by simp
  then have split: "free_stack m =
      take (free_count m - 1) (free_list m) @ [free_list m ! (free_count m - 1)]"
    using lt take_Suc_conv_app_nth [of "free_count m - 1" "free_list m"]
    by (simp add: free_stack_def)
  then have top: "last (free_stack m) = free_list m ! (free_count m - 1)"
    by simp
  show "mecs_entity_create m =
      Some (last (free_stack m), m\<lparr>free_count := free_count m - 1\<rparr>)"
    using pos lt top by (simp add: mecs_entity_create_def array_get_Some)
  show "free_stack (m\<lparr>free_count := free_count m - 1\<rparr>) = butlast (free_stack m)"
    using split by (simp add: free_stack_def)
next
  assume "free_count m = 0"
  then show "mecs_entity_create m =
      Some (next_entity m, m\<lparr>next_entity := next_entity m + 1\<rparr>)"
    by (simp add: mecs_entity_create_def)
next
  assume "free_count m = 0"
  with assms(3) have "unat (next_entity m) < MAX_ENTITIES" by simp
  then show "unat (next_entity m + 1) = unat (next_entity m) + 1"
    by (rule unat_Entity_succ)
qed

theorem create_algorithm_witness:
  "manager_sized initial_manager \<and> free_count initial_manager \<le> MAX_ENTITIES
   \<and> (free_count initial_manager > 0 \<or> unat (next_entity initial_manager) < MAX_ENTITIES)
   \<and> free_count initial_manager = 0
   \<and> mecs_entity_create initial_manager = Some (0, initial_manager\<lparr>next_entity := 1\<rparr>)
   \<and> manager_sized (initial_manager\<lparr>free_list := (free_list initial_manager)[0 := 7], free_count := 1\<rparr>)
   \<and> mecs_entity_create (initial_manager\<lparr>free_list := (free_list initial_manager)[0 := 7], free_count := 1\<rparr>)
       = Some (7, initial_manager\<lparr>free_list := (free_list initial_manager)[0 := 7], free_count := 0\<rparr>)"
proof -
  let ?m = "initial_manager\<lparr>free_list := (free_list initial_manager)[0 := 7], free_count := 1\<rparr>"
  have s: "manager_sized initial_manager"
    by (rule manager_sized_initial)
  have c: "free_count initial_manager \<le> MAX_ENTITIES"
    by (simp add: initial_manager_def new_game_def)
  have n: "free_count initial_manager > 0 \<or> unat (next_entity initial_manager) < MAX_ENTITIES"
    by (simp add: initial_manager_def new_game_def MAX_ENTITIES_def)
  have z: "free_count initial_manager = 0" "next_entity initial_manager = 0"
    by (simp_all add: initial_manager_def new_game_def)
  have s': "manager_sized ?m"
    using s by (simp add: manager_sized_def)
  have c': "free_count ?m \<le> MAX_ENTITIES"
    by (simp add: MAX_ENTITIES_def)
  have n': "free_count ?m > 0 \<or> unat (next_entity ?m) < MAX_ENTITIES"
    by simp
  have top: "last (free_stack ?m) = 7"
    using s by (simp add: free_stack_def manager_sized_def MAX_ENTITIES_def take_Suc_conv_app_nth)
  from create_algorithm [OF s c n] z
  have a: "mecs_entity_create initial_manager = Some (0, initial_manager\<lparr>next_entity := 1\<rparr>)"
    by simp
  from create_algorithm [OF s' c' n'] top
  have b: "mecs_entity_create ?m = Some (7, ?m\<lparr>free_count := 0\<rparr>)"
    by simp
  from s c n z a s' b show ?thesis by simp
qed

text \<open>
  Claim C8. \<^verbatim>\<open>mecs_entity_destroy\<close> never leaves the free-list array, whatever the
  allocator holds: below \<^verbatim>\<open>MAX_ENTITIES\<close> it writes \<open>e\<close> at index \<open>free_count\<close> and
  increments \<open>free_count\<close>; at \<^verbatim>\<open>MAX_ENTITIES\<close> (or beyond) it returns the allocator as it
  was given, so \<open>e\<close> is not stored.
\<close>

theorem destroy_total_in_bounds:
  assumes "manager_sized m"
  shows "(free_count m < MAX_ENTITIES \<longrightarrow>
            mecs_entity_destroy m e =
              Some (m\<lparr>free_list := (free_list m)[free_count m := e],
                      free_count := free_count m + 1\<rparr>))
       \<and> (MAX_ENTITIES \<le> free_count m \<longrightarrow> mecs_entity_destroy m e = Some m)
       \<and> (\<exists>m'. mecs_entity_destroy m e = Some m' \<and> manager_sized m')"
  using assms
  by (simp add: mecs_entity_destroy_def manager_sized_def array_set_Some)

theorem destroy_total_in_bounds_witness:
  "manager_sized initial_manager \<and> free_count initial_manager < MAX_ENTITIES
   \<and> mecs_entity_destroy initial_manager 3 =
       Some (initial_manager\<lparr>free_list := (free_list initial_manager)[0 := 3], free_count := 1\<rparr>)
   \<and> manager_sized (initial_manager\<lparr>free_count := MAX_ENTITIES\<rparr>)
   \<and> mecs_entity_destroy (initial_manager\<lparr>free_count := MAX_ENTITIES\<rparr>) 3 =
       Some (initial_manager\<lparr>free_count := MAX_ENTITIES\<rparr>)"
proof -
  let ?full = "initial_manager\<lparr>free_count := MAX_ENTITIES\<rparr>"
  have s: "manager_sized initial_manager"
    by (rule manager_sized_initial)
  have z: "free_count initial_manager = 0"
    by (simp add: initial_manager_def new_game_def)
  have c: "free_count initial_manager < MAX_ENTITIES"
    using z by (simp add: MAX_ENTITIES_def)
  have s': "manager_sized ?full"
    using s by (simp add: manager_sized_def)
  from destroy_total_in_bounds [OF s, of 3] c z
  have a: "mecs_entity_destroy initial_manager 3 =
       Some (initial_manager\<lparr>free_list := (free_list initial_manager)[0 := 3], free_count := 1\<rparr>)"
    by simp
  from destroy_total_in_bounds [OF s', of 3]
  have b: "mecs_entity_destroy ?full 3 = Some ?full"
    by simp
  from s c a s' b show ?thesis by simp
qed

text \<open>
  Claim C9. With room on the free stack, \<^verbatim>\<open>mecs_entity_destroy(em, e)\<close> followed at once by
  \<^verbatim>\<open>mecs_entity_create(em)\<close> returns exactly \<open>e\<close>; the free count is back to what it was.
\<close>

theorem destroy_then_create:
  assumes "manager_sized m" and "free_count m < MAX_ENTITIES"
  shows "(mecs_entity_destroy m e \<bind> mecs_entity_create) =
           Some (e, m\<lparr>free_list := (free_list m)[free_count m := e]\<rparr>)"
  using assms
  by (simp add: mecs_entity_destroy_def mecs_entity_create_def manager_sized_def
      array_set_Some array_get_Some)

theorem destroy_then_create_witness:
  "manager_sized initial_manager \<and> free_count initial_manager < MAX_ENTITIES
   \<and> (mecs_entity_destroy initial_manager 3 \<bind> mecs_entity_create) =
        Some (3, initial_manager\<lparr>free_list := (free_list initial_manager)[0 := 3]\<rparr>)"
proof -
  have s: "manager_sized initial_manager"
    by (rule manager_sized_initial)
  have z: "free_count initial_manager = 0"
    by (simp add: initial_manager_def new_game_def)
  have c: "free_count initial_manager < MAX_ENTITIES"
    using z by (simp add: MAX_ENTITIES_def)
  from destroy_then_create [OF s c, of 3] z s c show ?thesis by simp
qed

text \<open>
  Claim C4, as the code has it. The claim asks for an error and an unchanged allocator
  when the free stack is empty and \<open>next_entity\<close> has reached \<^verbatim>\<open>MAX_ENTITIES\<close>. The code has
  no such check: from the allocator that 1024 creations leave, the next creation
  returns 1024, which is neither below \<^verbatim>\<open>MAX_ENTITIES\<close> nor \<^verbatim>\<open>INVALID_ENTITY\<close>, and moves
  \<open>next_entity\<close> to 1025.
\<close>

theorem create_at_capacity_counterexample:
  "mecs_entity_create (initial_manager\<lparr>next_entity := 1024\<rparr>)
     = Some (1024, initial_manager\<lparr>next_entity := 1025\<rparr>)
   \<and> free_count (initial_manager\<lparr>next_entity := 1024\<rparr>) = 0
   \<and> unat (next_entity (initial_manager\<lparr>next_entity := 1024\<rparr>)) = MAX_ENTITIES
   \<and> initial_manager\<lparr>next_entity := 1025\<rparr> \<noteq> initial_manager\<lparr>next_entity := 1024\<rparr>
   \<and> (1024 :: Entity) \<noteq> INVALID_ENTITY
   \<and> \<not> unat (1024 :: Entity) < MAX_ENTITIES"
  by (simp add: mecs_entity_create_def initial_manager_def new_game_def MAX_ENTITIES_def
      INVALID_ENTITY_def)

text \<open>
  Claim C4, amended. With an empty free stack \<^verbatim>\<open>mecs_entity_create\<close> always succeeds: it
  returns \<open>next_entity\<close>, whatever its value, and adds one to \<open>next_entity\<close> modulo
  \<open>2 ^ 32\<close>, leaving the free list and the free count as they were. No error is reported
  and \<^verbatim>\<open>MAX_ENTITIES\<close> is not consulted.
\<close>

theorem create_no_capacity_check:
  assumes "free_count m = 0"
  shows "mecs_entity_create m = Some (next_entity m, m\<lparr>next_entity := next_entity m + 1\<rparr>)
       \<and> unat (next_entity m + 1) = (unat (next_entity m) + 1) mod 2 ^ 32"
  using assms by (simp add: mecs_entity_create_def unat_word_ariths)

theorem create_no_capacity_check_witness:
  "free_count (initial_manager\<lparr>next_entity := - 1\<rparr>) = 0
   \<and> mecs_entity_create (initial_manager\<lparr>next_entity := - 1\<rparr>)
       = Some (- 1, initial_manager\<lparr>next_entity := 0\<rparr>)"
proof -
  have z: "free_count (initial_manager\<lparr>next_entity := - 1\<rparr>) = 0"
    by (simp add: initial_manager_def new_game_def)
  from create_no_capacity_check [OF z] z show ?thesis by simp
qed

section \<open>Queries\<close>

lemma unat_of_nat_slot: "n < MAX_ENTITIES \<Longrightarrow> unat (of_nat n :: Entity) = n"
  by (simp add: unat_of_nat MAX_ENTITIES_def)

lemma slots_step: "n < MAX_ENTITIES \<Longrightarrow> slots_from n = of_nat n # slots_from (Suc n)"
  by (simp add: slots_from_def upt_conv_Cons)

lemma slots_end: "slots_from MAX_ENTITIES = []"
  by (simp add: slots_from_def)

lemma MECS_FOREACH_2_from_filter:
  assumes "n \<le> MAX_ENTITIES"
  shows "MECS_FOREACH_2_from c1 c2 (of_nat n) =
           filter (\<lambda>e. comp_flag c1 ! unat e \<and> comp_flag c2 ! unat e) (slots_from n)"
  using assms
proof (induction "MAX_ENTITIES - n" arbitrary: n)
  case 0
  then have n: "n = MAX_ENTITIES" by simp
  have "unat (of_nat MAX_ENTITIES :: Entity) = MAX_ENTITIES"
    by (simp add: unat_of_nat MAX_ENTITIES_def)
  then show ?case
    unfolding n by (subst MECS_FOREACH_2_from.simps) (simp add: slots_end)
next
  case (Suc k)
  let ?P = "\<lambda>e :: Entity. comp_flag c1 ! unat e \<and> comp_flag c2 ! unat e"
  from Suc.hyps(2) have lt: "n < MAX_ENTITIES" by simp
  have inc: "(of_nat n :: Entity) + 1 = of_nat (Suc n)" by simp
  have u: "unat (of_nat n :: Entity) = n" using lt by (rule unat_of_nat_slot)
  have ih: "MECS_FOREACH_2_from c1 c2 (of_nat (Suc n)) = filter ?P (slots_from (Suc n))"
  proof (rule Suc.hyps(1))
    show "k = MAX_ENTITIES - Suc n" using Suc.hyps(2) by simp
    show "Suc n \<le> MAX_ENTITIES" using lt by simp
  qed
  have "MECS_FOREACH_2_from c1 c2 (of_nat n) =
      (if ?P (of_nat n) then [of_nat n] else [])
        @ MECS_FOREACH_2_from c1 c2 (of_nat n + 1)"
    by (subst MECS_FOREACH_2_from.simps) (simp add: u lt)
  also have "\<dots> = (if ?P (of_nat n) then [of_nat n] else []) @ filter ?P (slots_from (Suc n))"
    by (simp only: inc ih)
  also have "\<dots> = filter ?P (slots_from n)"
    by (simp add: slots_step [OF lt] u)
  finally show ?case .
qed

lemma MECS_FOREACH_3_from_filter:
  assumes "n \<le> MAX_ENTITIES"
  shows "MECS_FOREACH_3_from c1 c2 c3 (of_nat n) =
           filter (\<lambda>e. comp_flag c1 ! unat e \<and> comp_flag c2 ! unat e \<and> comp_flag c3 ! unat e) (slots_from n)"
  using assms
proof (induction "MAX_ENTITIES - n" arbitrary: n)
  case 0
  then have n: "n = MAX_ENTITIES" by simp
  have "unat (of_nat MAX_ENTITIES :: Entity) = MAX_ENTITIES"
    by (simp add: unat_of_nat MAX_ENTITIES_def)
  then show ?case
    unfolding n by (subst MECS_FOREACH_3_from.simps) (simp add: slots_end)
next
  case (Suc k)
  let ?P = "\<lambda>e :: Entity. comp_flag c1 ! unat e \<and> comp_flag c2 ! unat e \<and> comp_flag c3 ! unat e"
  from Suc.hyps(2) have lt: "n < MAX_ENTITIES" by simp
  have inc: "(of_nat n :: Entity) + 1 = of_nat (Suc n)" by simp
  have u: "unat (of_nat n :: Entity) = n" using lt by (rule unat_of_nat_slot)
  have ih: "MECS_FOREACH_3_from c1 c2 c3 (of_nat (Suc n)) = filter ?P (slots_from (Suc n))"
  proof (rule Suc.hyps(1))
    show "k = MAX_ENTITIES - Suc n" using Suc.hyps(2) by simp
    show "Suc n \<le> MAX_ENTITIES" using lt by simp
  qed
  have "MECS_FOREACH_3_from c1 c2 c3 (of_nat n) =
      (if ?P (of_nat n) then [of_nat n] else [])
        @ MECS_FOREACH_3_from c1 c2 c3 (of_nat n + 1)"
    by (subst MECS_FOREACH_3_from.simps) (simp add: u lt)
  also have "\<dots> = (if ?P (of_nat n) then [of_nat n] else []) @ filter ?P (slots_from (Suc n))"
    by (simp only: inc ih)
  also have "\<dots> = filter ?P (slots_from n)"
    by (simp add: slots_step [OF lt] u)
  finally show ?case .
qed

lemma slots_sorted: "sorted_wrt (<) (slots_from n)"
proof -
  have "sorted_wrt (\<lambda>i j. (of_nat i :: Entity) < of_nat j) [n..<MAX_ENTITIES]"
  proof (rule sorted_wrt_mono_rel [OF _ sorted_wrt_upt [of n MAX_ENTITIES]])
    fix i j
    assume "i \<in> set [n..<MAX_ENTITIES]" "j \<in> set [n..<MAX_ENTITIES]" "i < j"
    then have "i < MAX_ENTITIES" "j < MAX_ENTITIES" "i < j" by simp_all
    then show "(of_nat i :: Entity) < of_nat j"
      by (simp add: word_less_nat_alt unat_of_nat_slot)
  qed
  then show ?thesis
    by (simp add: slots_from_def sorted_wrt_map)
qed

lemma set_slots: "set (slots_from 0) = {e. unat e < MAX_ENTITIES}"
proof (intro set_eqI iffI)
  fix e :: Entity
  assume "e \<in> set (slots_from 0)"
  then show "e \<in> {e. unat e < MAX_ENTITIES}"
    by (auto simp add: slots_from_def unat_of_nat_slot)
next
  fix e :: Entity
  assume "e \<in> {e. unat e < MAX_ENTITIES}"
  then have "unat e < MAX_ENTITIES" by simp
  moreover have "of_nat (unat e) = e" by simp
  ultimately show "e \<in> set (slots_from 0)"
    unfolding slots_from_def set_map set_upt by (metis atLeastLessThan_iff imageI zero_le)
qed


lemma has_True_iff:
  assumes "component_sized c"
  shows "MECS_HAS_COMPONENT c e = Some True \<longleftrightarrow> unat e < MAX_ENTITIES \<and> comp_flag c ! unat e"
  using assms by (simp add: MECS_HAS_COMPONENT_def array_get_def component_sized_def)

lemma filter_slots_cong:
  assumes "\<And>e. unat e < MAX_ENTITIES \<Longrightarrow> P e = Q e"
  shows "filter P (slots_from 0) = filter Q (slots_from 0)"
  using assms by (intro filter_cong refl) (simp add: set_slots)

lemma MECS_FOREACH_2_filter:
  "MECS_FOREACH_2 c1 c2 =
     filter (\<lambda>e. comp_flag c1 ! unat e \<and> comp_flag c2 ! unat e) (slots_from 0)"
  using MECS_FOREACH_2_from_filter [of 0 c1 c2] by (simp add: MECS_FOREACH_2_def)

lemma MECS_FOREACH_3_filter:
  "MECS_FOREACH_3 c1 c2 c3 =
     filter (\<lambda>e. comp_flag c1 ! unat e \<and> comp_flag c2 ! unat e \<and> comp_flag c3 ! unat e)
       (slots_from 0)"
  using MECS_FOREACH_3_from_filter [of 0 c1 c2 c3] by (simp add: MECS_FOREACH_3_def)

text \<open>
  Claim C1. For stores of \<^verbatim>\<open>MAX_ENTITIES\<close> slots, \<^verbatim>\<open>MECS_FOREACH_2\<close> visits exactly the
  entities below \<^verbatim>\<open>MAX_ENTITIES\<close> at which both presence flags are true, in strictly
  ascending order: it is the list of all slots, ascending, filtered by the two flags.
  The scan reads nothing but the flags, so two scans of stores with the same flags
  visit the same sequence. \<^verbatim>\<open>MECS_FOREACH_3\<close> does the same with three stores.
\<close>

theorem query_exact:
  assumes "component_sized a" and "component_sized b" and "component_sized c"
  shows "MECS_FOREACH_2 a b =
           filter (\<lambda>e. MECS_HAS_COMPONENT a e = Some True \<and> MECS_HAS_COMPONENT b e = Some True)
             (slots_from 0)
       \<and> set (MECS_FOREACH_2 a b) =
           {e. unat e < MAX_ENTITIES \<and> MECS_HAS_COMPONENT a e = Some True
                 \<and> MECS_HAS_COMPONENT b e = Some True}
       \<and> sorted_wrt (<) (MECS_FOREACH_2 a b)
       \<and> (comp_flag a' = comp_flag a \<and> comp_flag b' = comp_flag b \<longrightarrow>
            MECS_FOREACH_2 a' b' = MECS_FOREACH_2 a b)
       \<and> MECS_FOREACH_3 a b c =
           filter (\<lambda>e. MECS_HAS_COMPONENT a e = Some True \<and> MECS_HAS_COMPONENT b e = Some True
                        \<and> MECS_HAS_COMPONENT c e = Some True)
             (slots_from 0)
       \<and> set (MECS_FOREACH_3 a b c) =
           {e. unat e < MAX_ENTITIES \<and> MECS_HAS_COMPONENT a e = Some True
                 \<and> MECS_HAS_COMPONENT b e = Some True \<and> MECS_HAS_COMPONENT c e = Some True}
       \<and> sorted_wrt (<) (MECS_FOREACH_3 a b c)
       \<and> (comp_flag a' = comp_flag a \<and> comp_flag b' = comp_flag b \<and> comp_flag c' = comp_flag c
            \<longrightarrow> MECS_FOREACH_3 a' b' c' = MECS_FOREACH_3 a b c)"
proof -
  let ?P2 = "\<lambda>e :: Entity. MECS_HAS_COMPONENT a e = Some True \<and> MECS_HAS_COMPONENT b e = Some True"
  let ?P3 = "\<lambda>e :: Entity. MECS_HAS_COMPONENT a e = Some True \<and> MECS_HAS_COMPONENT b e = Some True
                \<and> MECS_HAS_COMPONENT c e = Some True"
  have q2: "MECS_FOREACH_2 a b = filter ?P2 (slots_from 0)"
    unfolding MECS_FOREACH_2_filter
    by (rule filter_slots_cong) (simp add: has_True_iff assms)
  have q3: "MECS_FOREACH_3 a b c = filter ?P3 (slots_from 0)"
    unfolding MECS_FOREACH_3_filter
    by (rule filter_slots_cong) (simp add: has_True_iff assms)
  have s2: "set (MECS_FOREACH_2 a b) = {e. unat e < MAX_ENTITIES \<and> ?P2 e}"
    unfolding q2 by (auto simp add: set_slots)
  have s3: "set (MECS_FOREACH_3 a b c) = {e. unat e < MAX_ENTITIES \<and> ?P3 e}"
    unfolding q3 by (auto simp add: set_slots)
  have o2: "sorted_wrt (<) (MECS_FOREACH_2 a b)"
    unfolding q2 by (rule sorted_wrt_filter) (rule slots_sorted)
  have o3: "sorted_wrt (<) (MECS_FOREACH_3 a b c)"
    unfolding q3 by (rule sorted_wrt_filter) (rule slots_sorted)
  have d2: "comp_flag a' = comp_flag a \<and> comp_flag b' = comp_flag b \<longrightarrow>
      MECS_FOREACH_2 a' b' = MECS_FOREACH_2 a b"
    by (simp add: MECS_FOREACH_2_filter)
  have d3: "comp_flag a' = comp_flag a \<and> comp_flag b' = comp_flag b \<and> comp_flag c' = comp_flag c
      \<longrightarrow> MECS_FOREACH_3 a' b' c' = MECS_FOREACH_3 a b c"
    by (simp add: MECS_FOREACH_3_filter)
  from q2 s2 o2 d2 q3 s3 o3 d3 show ?thesis by blast
qed


theorem query_exact_witness:
  "component_sized \<lparr>comp_data = replicate MAX_ENTITIES (0 :: nat),
                    comp_flag = (replicate MAX_ENTITIES False)[2 := True, 5 := True]\<rparr>
   \<and> component_sized \<lparr>comp_data = replicate MAX_ENTITIES (),
                    comp_flag = (replicate MAX_ENTITIES False)[5 := True, 7 := True]\<rparr>
   \<and> set (MECS_FOREACH_2
          \<lparr>comp_data = replicate MAX_ENTITIES (0 :: nat),
            comp_flag = (replicate MAX_ENTITIES False)[2 := True, 5 := True]\<rparr>
          \<lparr>comp_data = replicate MAX_ENTITIES (),
            comp_flag = (replicate MAX_ENTITIES False)[5 := True, 7 := True]\<rparr>) = {5}
   \<and> MECS_FOREACH_2
          \<lparr>comp_data = replicate MAX_ENTITIES (1 :: nat),
            comp_flag = (replicate MAX_ENTITIES False)[2 := True, 5 := True]\<rparr>
          \<lparr>comp_data = replicate MAX_ENTITIES (),
            comp_flag = (replicate MAX_ENTITIES False)[5 := True, 7 := True]\<rparr>
       = MECS_FOREACH_2
          \<lparr>comp_data = replicate MAX_ENTITIES (0 :: nat),
            comp_flag = (replicate MAX_ENTITIES False)[2 := True, 5 := True]\<rparr>
          \<lparr>comp_data = replicate MAX_ENTITIES (),
            comp_flag = (replicate MAX_ENTITIES False)[5 := True, 7 := True]\<rparr>"
proof -
  let ?a = "\<lparr>comp_data = replicate MAX_ENTITIES (0 :: nat),
             comp_flag = (replicate MAX_ENTITIES False)[2 := True, 5 := True]\<rparr>"
  let ?a' = "\<lparr>comp_data = replicate MAX_ENTITIES (1 :: nat),
             comp_flag = (replicate MAX_ENTITIES False)[2 := True, 5 := True]\<rparr>"
  let ?b = "\<lparr>comp_data = replicate MAX_ENTITIES (),
             comp_flag = (replicate MAX_ENTITIES False)[5 := True, 7 := True]\<rparr>"
  have sa: "component_sized ?a" and sb: "component_sized ?b"
    by (simp_all add: component_sized_def)
  note q = query_exact [OF sa sb sb, of ?a' ?b ?b]
  have lt: "(2 :: nat) < MAX_ENTITIES" "(5 :: nat) < MAX_ENTITIES" "(7 :: nat) < MAX_ENTITIES"
    by (simp_all add: MAX_ENTITIES_def)
  have un: "unat e = 2 \<longleftrightarrow> e = 2" "unat e = 5 \<longleftrightarrow> e = 5" "unat e = 7 \<longleftrightarrow> e = 7"
    for e :: Entity
    by (simp_all add: word_unat_eq_iff)
  have ha: "MECS_HAS_COMPONENT ?a e = Some True \<longleftrightarrow> e = 2 \<or> e = 5" for e
    unfolding has_True_iff [OF sa] using lt
    by (auto simp add: nth_list_update un)
  have hb: "MECS_HAS_COMPONENT ?b e = Some True \<longleftrightarrow> e = 5 \<or> e = 7" for e
    unfolding has_True_iff [OF sb] using lt
    by (auto simp add: nth_list_update un)
  have five: "unat (5 :: Entity) < MAX_ENTITIES"
    using lt by simp
  have "set (MECS_FOREACH_2 ?a ?b) =
      {e. unat e < MAX_ENTITIES \<and> MECS_HAS_COMPONENT ?a e = Some True
            \<and> MECS_HAS_COMPONENT ?b e = Some True}"
    by (rule q [THEN conjunct2, THEN conjunct1])
  also have "\<dots> = {5}"
    unfolding ha hb using five by auto
  finally have s: "set (MECS_FOREACH_2 ?a ?b) = {5}" .
  have d: "MECS_FOREACH_2 ?a' ?b = MECS_FOREACH_2 ?a ?b"
    by (rule q [THEN conjunct2, THEN conjunct2, THEN conjunct2, THEN conjunct1, THEN mp])
       simp
  show ?thesis
    by (intro conjI) (fact sa sb s d)+
qed

section \<open>The world: clearing and destroying\<close>

lemma destroy_total_in_bounds_aux:
  assumes "manager_sized m"
  shows "\<exists>m'. mecs_entity_destroy m e = Some m'"
  using assms by (simp add: mecs_entity_destroy_def manager_sized_def array_set_Some)

lemma destroy_then_create_aux:
  assumes "manager_sized m" and "free_count m < MAX_ENTITIES"
  shows "(mecs_entity_destroy m e \<bind> mecs_entity_create) =
           Some (e, m\<lparr>free_list := (free_list m)[free_count m := e]\<rparr>)"
  using assms
  by (simp add: mecs_entity_destroy_def mecs_entity_create_def manager_sized_def
      array_set_Some array_get_Some)

lemma same_but_index_update: "same_but_index xs (xs[i := v]) i"
  by (simp add: same_but_index_def)

lemma same_but_index_refl: "same_but_index xs xs i"
  by (simp add: same_but_index_def)

lemma same_but_slot_set:
  "same_but_slot c (c\<lparr>comp_data := (comp_data c)[i := v], comp_flag := (comp_flag c)[i := b]\<rparr>) i"
  by (simp add: same_but_slot_def same_but_index_update)

lemma same_but_slot_clear:
  "same_but_slot c (c\<lparr>comp_flag := (comp_flag c)[i := b]\<rparr>) i"
  by (simp add: same_but_slot_def same_but_index_update same_but_index_refl)

lemma has_after_clear:
  assumes "component_sized c" and "unat e < MAX_ENTITIES"
  shows "MECS_HAS_COMPONENT (c\<lparr>comp_flag := (comp_flag c)[unat e := False]\<rparr>) e = Some False"
  using assms by (simp add: MECS_HAS_COMPONENT_def array_get_def component_sized_def)

lemma clear_components_sized:
  assumes "world_sized game" and "unat e < MAX_ENTITIES"
  shows "clear_components game e =
           Some (game\<lparr>collidable := cleared (collidable game) e,
                      consumer := cleared (consumer game) e,
                      direction := cleared (direction game) e,
                      drawable := cleared (drawable game) e,
                      edible := cleared (edible game) e,
                      follower := cleared (follower game) e,
                      interactable := cleared (interactable game) e,
                      position := cleared (position game) e\<rparr>)"
  using assms
  by (simp add: clear_components_def world_sized_def MECS_CLEAR_COMPONENT_sized cleared_def
      clear_collidable_def clear_consumer_def clear_direction_def clear_drawable_def
      clear_edible_def clear_follower_def clear_interactable_def clear_position_def)


lemma world_sized_new_game: "world_sized new_game"
  by (simp add: world_sized_def new_game_def manager_sized_def component_sized_zero)

lemma no_component_at_cleared:
  assumes "world_sized game" and "unat e < MAX_ENTITIES"
  shows "no_component_at
           (game\<lparr>collidable := cleared (collidable game) e,
                 consumer := cleared (consumer game) e,
                 direction := cleared (direction game) e,
                 drawable := cleared (drawable game) e,
                 edible := cleared (edible game) e,
                 follower := cleared (follower game) e,
                 interactable := cleared (interactable game) e,
                 position := cleared (position game) e, em := m\<rparr>) e"
  using assms
  by (simp add: no_component_at_def world_sized_def cleared_def has_after_clear)

text \<open>
  Claim C2. In a world of \<^verbatim>\<open>MAX_ENTITIES\<close> slots and for \<open>e\<close> below \<^verbatim>\<open>MAX_ENTITIES\<close>,
  \<^verbatim>\<open>destroy_entity\<close> succeeds. Its first step \<^verbatim>\<open>clear_components\<close> gives a world \<open>g\<close> in
  which none of the eight components is present at \<open>e\<close> and whose allocator is still the
  one before the call; only then is \<open>e\<close> handed to \<^verbatim>\<open>mecs_entity_destroy\<close>, and the world
  returned is \<open>g\<close> with the allocator that call returns. When the free stack had room,
  the next \<^verbatim>\<open>mecs_entity_create\<close> returns \<open>e\<close>, in a world that has no component at \<open>e\<close>.
\<close>

theorem destroy_entity_clears:
  assumes "world_sized game" and "unat e < MAX_ENTITIES"
  shows "\<exists>g m'. clear_components game e = Some g
           \<and> no_component_at g e
           \<and> em g = em game
           \<and> mecs_entity_destroy (em game) e = Some m'
           \<and> destroy_entity game e = Some (g\<lparr>em := m'\<rparr>)
           \<and> no_component_at (g\<lparr>em := m'\<rparr>) e
           \<and> (free_count (em game) < MAX_ENTITIES \<longrightarrow>
                (\<exists>m''. mecs_entity_create m' = Some (e, m'')))"
proof -
  let ?g = "game\<lparr>collidable := cleared (collidable game) e,
                  consumer := cleared (consumer game) e,
                  direction := cleared (direction game) e,
                  drawable := cleared (drawable game) e,
                  edible := cleared (edible game) e,
                  follower := cleared (follower game) e,
                  interactable := cleared (interactable game) e,
                  position := cleared (position game) e\<rparr>"
  from assms(1) have ms: "manager_sized (em game)"
    by (simp add: world_sized_def)
  from destroy_total_in_bounds_aux [OF ms] obtain m' where
    d: "mecs_entity_destroy (em game) e = Some m'"
    by blast
  have c: "clear_components game e = Some ?g"
    using assms by (rule clear_components_sized)
  have n: "no_component_at (?g\<lparr>em := m\<rparr>) e" for m
    using no_component_at_cleared [OF assms, of m] by simp
  from n [of "em game"] have n0: "no_component_at ?g e"
    by simp
  have e: "em ?g = em game"
    by simp
  have de: "destroy_entity game e = Some (?g\<lparr>em := m'\<rparr>)"
    using c d by (simp add: destroy_entity_def)
  have r: "free_count (em game) < MAX_ENTITIES \<longrightarrow>
      (\<exists>m''. mecs_entity_create m' = Some (e, m''))"
  proof
    assume lt: "free_count (em game) < MAX_ENTITIES"
    from destroy_then_create_aux [OF ms lt, of e] d show "\<exists>m''. mecs_entity_create m' = Some (e, m'')"
      by simp
  qed
  from c n0 e d de n [of m'] r show ?thesis
    by blast
qed

theorem destroy_entity_clears_witness:
  "world_sized (new_game\<lparr>position := (position new_game)
       \<lparr>comp_flag := (comp_flag (position new_game))[3 := True]\<rparr>\<rparr>)
   \<and> unat (3 :: Entity) < MAX_ENTITIES
   \<and> MECS_HAS_COMPONENT (position (new_game\<lparr>position := (position new_game)
       \<lparr>comp_flag := (comp_flag (position new_game))[3 := True]\<rparr>\<rparr>)) 3 = Some True
   \<and> (\<exists>g'. destroy_entity (new_game\<lparr>position := (position new_game)
             \<lparr>comp_flag := (comp_flag (position new_game))[3 := True]\<rparr>\<rparr>) 3 = Some g'
          \<and> no_component_at g' 3
          \<and> (\<exists>m''. mecs_entity_create (em g') = Some (3, m'')))"
proof -
  let ?w = "new_game\<lparr>position := (position new_game)
       \<lparr>comp_flag := (comp_flag (position new_game))[3 := True]\<rparr>\<rparr>"
  have s: "world_sized ?w"
    using world_sized_new_game by (simp add: world_sized_def component_sized_def)
  have r: "unat (3 :: Entity) < MAX_ENTITIES"
    by (simp add: MAX_ENTITIES_def)
  have three: "(3 :: nat) < MAX_ENTITIES"
    by (simp add: MAX_ENTITIES_def)
  have h: "MECS_HAS_COMPONENT (position ?w) 3 = Some True"
    using three by (simp add: MECS_HAS_COMPONENT_def array_get_def new_game_def zero_component_def)
  have f: "free_count (em ?w) < MAX_ENTITIES"
    by (simp add: new_game_def MAX_ENTITIES_def)
  from destroy_entity_clears [OF s r] f obtain g m' m'' where
    "destroy_entity ?w 3 = Some (g\<lparr>em := m'\<rparr>)"
    "no_component_at (g\<lparr>em := m'\<rparr>) 3"
    "mecs_entity_create m' = Some (3, m'')"
    by blast
  then have "\<exists>g'. destroy_entity ?w 3 = Some g' \<and> no_component_at g' 3
      \<and> (\<exists>m''. mecs_entity_create (em g') = Some (3, m''))"
    by (intro exI [of _ "g\<lparr>em := m'\<rparr>"]) simp
  with s r h show ?thesis by blast
qed

lemma set_collidable_local:
  assumes "world_sized game" and "unat e < MAX_ENTITIES"
  shows "\<exists>c. set_collidable game e v = Some (game\<lparr>collidable := c\<rparr>)
           \<and> same_but_slot (collidable game) c (unat e)"
proof -
  let ?c = "(collidable game)\<lparr>comp_data := (comp_data (collidable game))[unat e := v],
              comp_flag := (comp_flag (collidable game))[unat e := True]\<rparr>"
  have "set_collidable game e v = Some (game\<lparr>collidable := ?c\<rparr>)"
    using assms by (simp add: set_collidable_def world_sized_def MECS_SET_COMPONENT_sized)
  moreover have "same_but_slot (collidable game) ?c (unat e)"
    by (rule same_but_slot_set)
  ultimately show ?thesis by blast
qed

lemma clear_collidable_local:
  assumes "world_sized game" and "unat e < MAX_ENTITIES"
  shows "\<exists>c. clear_collidable game e = Some (game\<lparr>collidable := c\<rparr>)
           \<and> comp_data c = comp_data (collidable game)
           \<and> same_but_slot (collidable game) c (unat e)"
proof -
  let ?c = "cleared (collidable game) e"
  have "clear_collidable game e = Some (game\<lparr>collidable := ?c\<rparr>)"
    using assms
    by (simp add: clear_collidable_def world_sized_def MECS_CLEAR_COMPONENT_sized cleared_def)
  moreover have "comp_data ?c = comp_data (collidable game)"
    by (simp add: cleared_def)
  moreover have "same_but_slot (collidable game) ?c (unat e)"
    unfolding cleared_def by (rule same_but_slot_clear)
  ultimately show ?thesis by blast
qed

lemma set_consumer_local:
  assumes "world_sized game" and "unat e < MAX_ENTITIES"
  shows "\<exists>c. set_consumer game e v = Some (game\<lparr>consumer := c\<rparr>)
           \<and> same_but_slot (consumer game) c (unat e)"
proof -
  let ?c = "(consumer game)\<lparr>comp_data := (comp_data (consumer game))[unat e := v],
              comp_flag := (comp_flag (consumer game))[unat e := True]\<rparr>"
  have "set_consumer game e v = Some (game\<lparr>consumer := ?c\<rparr>)"
    using assms by (simp add: set_consumer_def world_sized_def MECS_SET_COMPONENT_sized)
  moreover have "same_but_slot (consumer game) ?c (unat e)"
    by (rule same_but_slot_set)
  ultimately show ?thesis by blast
qed

lemma clear_consumer_local:
  assumes "world_sized game" and "unat e < MAX_ENTITIES"
  shows "\<exists>c. clear_consumer game e = Some (game\<lparr>consumer := c\<rparr>)
           \<and> comp_data c = comp_data (consumer game)
           \<and> same_but_slot (consumer game) c (unat e)"
proof -
  let ?c = "cleared (consumer game) e"
  have "clear_consumer game e = Some (game\<lparr>consumer := ?c\<rparr>)"
    using assms
    by (simp add: clear_consumer_def world_sized_def MECS_CLEAR_COMPONENT_sized cleared_def)
  moreover have "comp_data ?c = comp_data (consumer game)"
    by (simp add: cleared_def)
  moreover have "same_but_slot (consumer game) ?c (unat e)"
    unfolding cleared_def by (rule same_but_slot_clear)
  ultimately show ?thesis by blast
qed

lemma set_direction_local:
  assumes "world_sized game" and "unat e < MAX_ENTITIES"
  shows "\<exists>c. set_direction game e v = Some (game\<lparr>direction := c\<rparr>)
           \<and> same_but_slot (direction game) c (unat e)"
proof -
  let ?c = "(direction game)\<lparr>comp_data := (comp_data (direction game))[unat e := v],
              comp_flag := (comp_flag (direction game))[unat e := True]\<rparr>"
  have "set_direction game e v = Some (game\<lparr>direction := ?c\<rparr>)"
    using assms by (simp add: set_direction_def world_sized_def MECS_SET_COMPONENT_sized)
  moreover have "same_but_slot (direction game) ?c (unat e)"
    by (rule same_but_slot_set)
  ultimately show ?thesis by blast
qed

lemma clear_direction_local:
  assumes "world_sized game" and "unat e < MAX_ENTITIES"
  shows "\<exists>c. clear_direction game e = Some (game\<lparr>direction := c\<rparr>)
           \<and> comp_data c = comp_data (direction game)
           \<and> same_but_slot (direction game) c (unat e)"
proof -
  let ?c = "cleared (direction game) e"
  have "clear_direction game e = Some (game\<lparr>direction := ?c\<rparr>)"
    using assms
    by (simp add: clear_direction_def world_sized_def MECS_CLEAR_COMPONENT_sized cleared_def)
  moreover have "comp_data ?c = comp_data (direction game)"
    by (simp add: cleared_def)
  moreover have "same_but_slot (direction game) ?c (unat e)"
    unfolding cleared_def by (rule same_but_slot_clear)
  ultimately show ?thesis by blast
qed

lemma set_drawable_local:
  assumes "world_sized game" and "unat e < MAX_ENTITIES"
  shows "\<exists>c. set_drawable game e v = Some (game\<lparr>drawable := c\<rparr>)
           \<and> same_but_slot (drawable game) c (unat e)"
proof -
  let ?c = "(drawable game)\<lparr>comp_data := (comp_data (drawable game))[unat e := v],
              comp_flag := (comp_flag (drawable game))[unat e := True]\<rparr>"
  have "set_drawable game e v = Some (game\<lparr>drawable := ?c\<rparr>)"
    using assms by (simp add: set_drawable_def world_sized_def MECS_SET_COMPONENT_sized)
  moreover have "same_but_slot (drawable game) ?c (unat e)"
    by (rule same_but_slot_set)
  ultimately show ?thesis by blast
qed

lemma clear_drawable_local:
  assumes "world_sized game" and "unat e < MAX_ENTITIES"
  shows "\<exists>c. clear_drawable game e = Some (game\<lparr>drawable := c\<rparr>)
           \<and> comp_data c = comp_data (drawable game)
           \<and> same_but_slot (drawable game) c (unat e)"
proof -
  let ?c = "cleared (drawable game) e"
  have "clear_drawable game e = Some (game\<lparr>drawable := ?c\<rparr>)"
    using assms
    by (simp add: clear_drawable_def world_sized_def MECS_CLEAR_COMPONENT_sized cleared_def)
  moreover have "comp_data ?c = comp_data (drawable game)"
    by (simp add: cleared_def)
  moreover have "same_but_slot (drawable game) ?c (unat e)"
    unfolding cleared_def by (rule same_but_slot_clear)
  ultimately show ?thesis by blast
qed

lemma set_edible_local:
  assumes "world_sized game" and "unat e < MAX_ENTITIES"
  shows "\<exists>c. set_edible game e v = Some (game\<lparr>edible := c\<rparr>)
           \<and> same_but_slot (edible game) c (unat e)"
proof -
  let ?c = "(edible game)\<lparr>comp_data := (comp_data (edible game))[unat e := v],
              comp_flag := (comp_flag (edible game))[unat e := True]\<rparr>"
  have "set_edible game e v = Some (game\<lparr>edible := ?c\<rparr>)"
    using assms by (simp add: set_edible_def world_sized_def MECS_SET_COMPONENT_sized)
  moreover have "same_but_slot (edible game) ?c (unat e)"
    by (rule same_but_slot_set)
  ultimately show ?thesis by blast
qed

lemma clear_edible_local:
  assumes "world_sized game" and "unat e < MAX_ENTITIES"
  shows "\<exists>c. clear_edible game e = Some (game\<lparr>edible := c\<rparr>)
           \<and> comp_data c = comp_data (edible game)
           \<and> same_but_slot (edible game) c (unat e)"
proof -
  let ?c = "cleared (edible game) e"
  have "clear_edible game e = Some (game\<lparr>edible := ?c\<rparr>)"
    using assms
    by (simp add: clear_edible_def world_sized_def MECS_CLEAR_COMPONENT_sized cleared_def)
  moreover have "comp_data ?c = comp_data (edible game)"
    by (simp add: cleared_def)
  moreover have "same_but_slot (edible game) ?c (unat e)"
    unfolding cleared_def by (rule same_but_slot_clear)
  ultimately show ?thesis by blast
qed

lemma set_follower_local:
  assumes "world_sized game" and "unat e < MAX_ENTITIES"
  shows "\<exists>c. set_follower game e v = Some (game\<lparr>follower := c\<rparr>)
           \<and> same_but_slot (follower game) c (unat e)"
proof -
  let ?c = "(follower game)\<lparr>comp_data := (comp_data (follower game))[unat e := v],
              comp_flag := (comp_flag (follower game))[unat e := True]\<rparr>"
  have "set_follower game e v = Some (game\<lparr>follower := ?c\<rparr>)"
    using assms by (simp add: set_follower_def world_sized_def MECS_SET_COMPONENT_sized)
  moreover have "same_but_slot (follower game) ?c (unat e)"
    by (rule same_but_slot_set)
  ultimately show ?thesis by blast
qed

lemma clear_follower_local:
  assumes "world_sized game" and "unat e < MAX_ENTITIES"
  shows "\<exists>c. clear_follower game e = Some (game\<lparr>follower := c\<rparr>)
           \<and> comp_data c = comp_data (follower game)
           \<and> same_but_slot (follower game) c (unat e)"
proof -
  let ?c = "cleared (follower game) e"
  have "clear_follower game e = Some (game\<lparr>follower := ?c\<rparr>)"
    using assms
    by (simp add: clear_follower_def world_sized_def MECS_CLEAR_COMPONENT_sized cleared_def)
  moreover have "comp_data ?c = comp_data (follower game)"
    by (simp add: cleared_def)
  moreover have "same_but_slot (follower game) ?c (unat e)"
    unfolding cleared_def by (rule same_but_slot_clear)
  ultimately show ?thesis by blast
qed

lemma set_interactable_local:
  assumes "world_sized game" and "unat e < MAX_ENTITIES"
  shows "\<exists>c. set_interactable game e v = Some (game\<lparr>interactable := c\<rparr>)
           \<and> same_but_slot (interactable game) c (unat e)"
proof -
  let ?c = "(interactable game)\<lparr>comp_data := (comp_data (interactable game))[unat e := v],
              comp_flag := (comp_flag (interactable game))[unat e := True]\<rparr>"
  have "set_interactable game e v = Some (game\<lparr>interactable := ?c\<rparr>)"
    using assms by (simp add: set_interactable_def world_sized_def MECS_SET_COMPONENT_sized)
  moreover have "same_but_slot (interactable game) ?c (unat e)"
    by (rule same_but_slot_set)
  ultimately show ?thesis by blast
qed

lemma clear_interactable_local:
  assumes "world_sized game" and "unat e < MAX_ENTITIES"
  shows "\<exists>c. clear_interactable game e = Some (game\<lparr>interactable := c\<rparr>)
           \<and> comp_data c = comp_data (interactable game)
           \<and> same_but_slot (interactable game) c (unat e)"
proof -
  let ?c = "cleared (interactable game) e"
  have "clear_interactable game e = Some (game\<lparr>interactable := ?c\<rparr>)"
    using assms
    by (simp add: clear_interactable_def world_sized_def MECS_CLEAR_COMPONENT_sized cleared_def)
  moreover have "comp_data ?c = comp_data (interactable game)"
    by (simp add: cleared_def)
  moreover have "same_but_slot (interactable game) ?c (unat e)"
    unfolding cleared_def by (rule same_but_slot_clear)
  ultimately show ?thesis by blast
qed

lemma set_position_local:
  assumes "world_sized game" and "unat e < MAX_ENTITIES"
  shows "\<exists>c. set_position game e v = Some (game\<lparr>position := c\<rparr>)
           \<and> same_but_slot (position game) c (unat e)"
proof -
  let ?c = "(position game)\<lparr>comp_data := (comp_data (position game))[unat e := v],
              comp_flag := (comp_flag (position game))[unat e := True]\<rparr>"
  have "set_position game e v = Some (game\<lparr>position := ?c\<rparr>)"
    using assms by (simp add: set_position_def world_sized_def MECS_SET_COMPONENT_sized)
  moreover have "same_but_slot (position game) ?c (unat e)"
    by (rule same_but_slot_set)
  ultimately show ?thesis by blast
qed

lemma clear_position_local:
  assumes "world_sized game" and "unat e < MAX_ENTITIES"
  shows "\<exists>c. clear_position game e = Some (game\<lparr>position := c\<rparr>)
           \<and> comp_data c = comp_data (position game)
           \<and> same_but_slot (position game) c (unat e)"
proof -
  let ?c = "cleared (position game) e"
  have "clear_position game e = Some (game\<lparr>position := ?c\<rparr>)"
    using assms
    by (simp add: clear_position_def world_sized_def MECS_CLEAR_COMPONENT_sized cleared_def)
  moreover have "comp_data ?c = comp_data (position game)"
    by (simp add: cleared_def)
  moreover have "same_but_slot (position game) ?c (unat e)"
    unfolding cleared_def by (rule same_but_slot_clear)
  ultimately show ?thesis by blast
qed

lemma destroy_entity_local:
  assumes "world_sized game" and "unat e < MAX_ENTITIES"
  shows "\<exists>g'. destroy_entity game e = Some g'
           \<and> stores_same_but_slot game g' (unat e)
           \<and> score g' = score game"
proof -
  from assms(1) have ms: "manager_sized (em game)"
    by (simp add: world_sized_def)
  from destroy_total_in_bounds_aux [OF ms] obtain m' where
    d: "mecs_entity_destroy (em game) e = Some m'"
    by blast
  show ?thesis
    using d
    by (simp add: destroy_entity_def clear_components_sized [OF assms]
        stores_same_but_slot_def cleared_def same_but_slot_clear)
qed

text \<open>
  Claim C10. In a world of \<^verbatim>\<open>MAX_ENTITIES\<close> slots and for \<open>e\<close> below \<^verbatim>\<open>MAX_ENTITIES\<close>, each
  \<^verbatim>\<open>MECS_SET_COMPONENT\<close> and each \<^verbatim>\<open>MECS_CLEAR_COMPONENT\<close> on a store of the world returns
  the world with that one store replaced (allocator, score and the seven other stores
  as they were), and the new store agrees with the old one at every slot other than
  \<open>e\<close>; a clear keeps the whole value array. \<^verbatim>\<open>destroy_entity\<close> returns a world with the
  same score whose eight stores agree with the old ones at every slot other than \<open>e\<close>.
\<close>

theorem mutations_local:
  assumes "world_sized game" and "unat e < MAX_ENTITIES"
  shows "(\<exists>c. set_collidable game e vcol = Some (game\<lparr>collidable := c\<rparr>)
              \<and> same_but_slot (collidable game) c (unat e))
       \<and> (\<exists>c. set_consumer game e vcon = Some (game\<lparr>consumer := c\<rparr>)
              \<and> same_but_slot (consumer game) c (unat e))
       \<and> (\<exists>c. set_direction game e vdir = Some (game\<lparr>direction := c\<rparr>)
              \<and> same_but_slot (direction game) c (unat e))
       \<and> (\<exists>c. set_drawable game e vdra = Some (game\<lparr>drawable := c\<rparr>)
              \<and> same_but_slot (drawable game) c (unat e))
       \<and> (\<exists>c. set_edible game e vedi = Some (game\<lparr>edible := c\<rparr>)
              \<and> same_but_slot (edible game) c (unat e))
       \<and> (\<exists>c. set_follower game e vfol = Some (game\<lparr>follower := c\<rparr>)
              \<and> same_but_slot (follower game) c (unat e))
       \<and> (\<exists>c. set_interactable game e vint = Some (game\<lparr>interactable := c\<rparr>)
              \<and> same_but_slot (interactable game) c (unat e))
       \<and> (\<exists>c. set_position game e vpos = Some (game\<lparr>position := c\<rparr>)
              \<and> same_but_slot (position game) c (unat e))
       \<and> (\<exists>c. clear_collidable game e = Some (game\<lparr>collidable := c\<rparr>)
              \<and> comp_data c = comp_data (collidable game)
              \<and> same_but_slot (collidable game) c (unat e))
       \<and> (\<exists>c. clear_consumer game e = Some (game\<lparr>consumer := c\<rparr>)
              \<and> comp_data c = comp_data (consumer game)
              \<and> same_but_slot (consumer game) c (unat e))
       \<and> (\<exists>c. clear_direction game e = Some (game\<lparr>direction := c\<rparr>)
              \<and> comp_data c = comp_data (direction game)
              \<and> same_but_slot (direction game) c (unat e))
       \<and> (\<exists>c. clear_drawable game e = Some (game\<lparr>drawable := c\<rparr>)
              \<and> comp_data c = comp_data (drawable game)
              \<and> same_but_slot (drawable game) c (unat e))
       \<and> (\<exists>c. clear_edible game e = Some (game\<lparr>edible := c\<rparr>)
              \<and> comp_data c = comp_data (edible game)
              \<and> same_but_slot (edible game) c (unat e))
       \<and> (\<exists>c. clear_follower game e = Some (game\<lparr>follower := c\<rparr>)
              \<and> comp_data c = comp_data (follower game)
              \<and> same_but_slot (follower game) c (unat e))
       \<and> (\<exists>c. clear_interactable game e = Some (game\<lparr>interactable := c\<rparr>)
              \<and> comp_data c = comp_data (interactable game)
              \<and> same_but_slot (interactable game) c (unat e))
       \<and> (\<exists>c. clear_position game e = Some (game\<lparr>position := c\<rparr>)
              \<and> comp_data c = comp_data (position game)
              \<and> same_but_slot (position game) c (unat e))
       \<and> (\<exists>g'. destroy_entity game e = Some g'
              \<and> stores_same_but_slot game g' (unat e)
              \<and> score g' = score game)"
  by (intro conjI)
     (rule set_collidable_local [OF assms]
        set_consumer_local [OF assms]
        set_direction_local [OF assms]
        set_drawable_local [OF assms]
        set_edible_local [OF assms]
        set_follower_local [OF assms]
        set_interactable_local [OF assms]
        set_position_local [OF assms]
        clear_collidable_local [OF assms]
        clear_consumer_local [OF assms]
        clear_direction_local [OF assms]
        clear_drawable_local [OF assms]
        clear_edible_local [OF assms]
        clear_follower_local [OF assms]
        clear_interactable_local [OF assms]
        clear_position_local [OF assms]
        destroy_entity_local [OF assms])+


theorem mutations_local_witness:
  "world_sized new_game \<and> unat (3 :: Entity) < MAX_ENTITIES
   \<and> (\<exists>c. set_position new_game 3 \<lparr>pos_x = 5, pos_y = 5\<rparr> = Some (new_game\<lparr>position := c\<rparr>)
          \<and> same_but_slot (position new_game) c (unat (3 :: Entity)))
   \<and> (\<exists>g'. destroy_entity new_game 3 = Some g'
          \<and> stores_same_but_slot new_game g' (unat (3 :: Entity))
          \<and> score g' = score new_game)"
proof -
  have s: "world_sized new_game"
    by (rule world_sized_new_game)
  have r: "unat (3 :: Entity) < MAX_ENTITIES"
    by (simp add: MAX_ENTITIES_def)
  note m = mutations_local [OF s r, where vpos = "\<lparr>pos_x = 5, pos_y = 5\<rparr>"]
  note p = m [THEN conjunct2, THEN conjunct2, THEN conjunct2, THEN conjunct2,
      THEN conjunct2, THEN conjunct2, THEN conjunct2, THEN conjunct1]
  note d = m [THEN conjunct2, THEN conjunct2, THEN conjunct2, THEN conjunct2,
      THEN conjunct2, THEN conjunct2, THEN conjunct2, THEN conjunct2,
      THEN conjunct2, THEN conjunct2, THEN conjunct2, THEN conjunct2,
      THEN conjunct2, THEN conjunct2, THEN conjunct2, THEN conjunct2]
  show ?thesis
    by (intro conjI) (rule s r p d)+
qed

section \<open>Sequences of allocator calls\<close>

lemma alloc_inv_iff:
  "alloc_inv (m, live) \<longleftrightarrow>
     manager_sized m
     \<and> length live + free_count m = unat (next_entity m)
     \<and> unat (next_entity m) \<le> MAX_ENTITIES
     \<and> distinct (live @ free_stack m)
     \<and> (\<forall>e \<in> set (live @ free_stack m). unat e < unat (next_entity m))"
  by (simp add: alloc_inv_def Let_def list_all_iff)

lemma alloc_inv_initial: "alloc_inv (initial_manager, [])"
  by (simp add: alloc_inv_iff manager_sized_initial)
     (simp add: initial_manager_def new_game_def free_stack_def)

lemma free_stack_pop:
  assumes "0 < free_count m" and "free_count m \<le> length (free_list m)"
  shows "free_stack m =
           free_stack (m\<lparr>free_count := free_count m - 1\<rparr>) @ [free_list m ! (free_count m - 1)]"
proof -
  from assms have lt: "free_count m - 1 < length (free_list m)" by simp
  from assms(1) have "free_count m = Suc (free_count m - 1)" by simp
  then show ?thesis
    using take_Suc_conv_app_nth [OF lt] by (simp add: free_stack_def)
qed

lemma free_stack_push:
  assumes "free_count m < length (free_list m)"
  shows "free_stack (m\<lparr>free_list := (free_list m)[free_count m := e],
                       free_count := free_count m + 1\<rparr>) = free_stack m @ [e]"
  using assms by (simp add: free_stack_def take_Suc_conv_app_nth)

lemma create_keeps_inv:
  assumes inv: "alloc_inv (m, live)" and room: "length live < MAX_ENTITIES"
  shows "\<exists>e m'. mecs_entity_create m = Some (e, m') \<and> alloc_inv (m', live @ [e])"
proof (cases "0 < free_count m")
  case True
  let ?m' = "m\<lparr>free_count := free_count m - 1\<rparr>"
  let ?e = "free_list m ! (free_count m - 1)"
  from inv have sz: "length (free_list m) = MAX_ENTITIES"
    and le: "free_count m \<le> MAX_ENTITIES"
    by (simp_all add: alloc_inv_iff manager_sized_def)
  have pop: "free_stack m = free_stack ?m' @ [?e]"
    using True le sz by (intro free_stack_pop) simp_all
  have "mecs_entity_create m = Some (?e, ?m')"
    using True le sz by (simp add: mecs_entity_create_def array_get_Some)
  moreover have "alloc_inv (?m', live @ [?e])"
    using inv True unfolding alloc_inv_iff pop
    by (auto simp add: manager_sized_def)
  ultimately show ?thesis by blast
next
  case False
  then have z: "free_count m = 0" by simp
  let ?m' = "m\<lparr>next_entity := next_entity m + 1\<rparr>"
  from inv z have len: "unat (next_entity m) = length live"
    by (simp add: alloc_inv_iff)
  with room have lt: "unat (next_entity m) < MAX_ENTITIES" by simp
  have suc: "unat (next_entity m + 1) = unat (next_entity m) + 1"
    using lt by (rule unat_Entity_succ)
  have fs: "free_stack m = []" "free_stack ?m' = []"
    using z by (simp_all add: free_stack_def)
  have "mecs_entity_create m = Some (next_entity m, ?m')"
    using z by (simp add: mecs_entity_create_def)
  moreover have "alloc_inv (?m', live @ [next_entity m])"
    using inv z lt unfolding alloc_inv_iff fs
    by (auto simp add: manager_sized_def suc)
  ultimately show ?thesis by blast
qed

lemma destroy_keeps_inv:
  assumes inv: "alloc_inv (m, live)" and live: "e \<in> set live"
  shows "\<exists>m'. mecs_entity_destroy m e = Some m' \<and> alloc_inv (m', remove1 e live)"
proof -
  let ?m' = "m\<lparr>free_list := (free_list m)[free_count m := e], free_count := free_count m + 1\<rparr>"
  from inv have sz: "length (free_list m) = MAX_ENTITIES"
    and sum: "length live + free_count m = unat (next_entity m)"
    and cap: "unat (next_entity m) \<le> MAX_ENTITIES"
    and dist: "distinct (live @ free_stack m)"
    and below: "\<forall>x \<in> set (live @ free_stack m). unat x < unat (next_entity m)"
    by (simp_all add: alloc_inv_iff manager_sized_def)
  from live have pos: "0 < length live"
    by (cases live) simp_all
  with sum cap have lt: "free_count m < MAX_ENTITIES" by arith
  have push: "free_stack ?m' = free_stack m @ [e]"
    using lt sz by (intro free_stack_push) simp
  have len: "length (remove1 e live) = length live - 1"
    using live by (simp add: length_remove1)
  have "mecs_entity_destroy m e = Some ?m'"
    using lt sz by (simp add: mecs_entity_destroy_def array_set_Some)
  moreover have "alloc_inv (?m', remove1 e live)"
    unfolding alloc_inv_iff push
  proof (intro conjI)
    show "manager_sized ?m'"
      using sz by (simp add: manager_sized_def)
    show "length (remove1 e live) + free_count ?m' = unat (next_entity ?m')"
    proof -
      have "length (remove1 e live) + (free_count m + 1) = unat (next_entity m)"
        using len pos sum by arith
      then show ?thesis by simp
    qed
    show "unat (next_entity ?m') \<le> MAX_ENTITIES"
      using cap by simp
    show "distinct (remove1 e live @ free_stack m @ [e])"
      using dist live by (auto dest: notin_set_remove1)
    show "\<forall>x \<in> set (remove1 e live @ free_stack m @ [e]). unat x < unat (next_entity ?m')"
      using below live set_remove1_subset [of e live] by auto
  qed
  ultimately show ?thesis by blast
qed

lemma alloc_step_keeps_inv:
  assumes "alloc_inv s"
  shows "alloc_step c s \<noteq> Inl UndefinedBehaviour
       \<and> (\<forall>s'. alloc_step c s = Inr s' \<longrightarrow> alloc_inv s')"
proof (cases s)
  case (Pair m live)
  show ?thesis
  proof (cases c)
    case Create
    show ?thesis
    proof (cases "length live < MAX_ENTITIES")
      case True
      from create_keeps_inv [OF assms [unfolded Pair] True] obtain e m' where
        "mecs_entity_create m = Some (e, m')" "alloc_inv (m', live @ [e])"
        by blast
      with True show ?thesis
        unfolding Pair Create by simp
    next
      case False
      then show ?thesis
        unfolding Pair Create by simp
    qed
  next
    case (Destroy e)
    show ?thesis
    proof (cases "e \<in> set live")
      case True
      from destroy_keeps_inv [OF assms [unfolded Pair] True] obtain m' where
        "mecs_entity_destroy m e = Some m'" "alloc_inv (m', remove1 e live)"
        by blast
      with True show ?thesis
        unfolding Pair Destroy by simp
    next
      case False
      then show ?thesis
        unfolding Pair Destroy by simp
    qed
  qed
qed

lemma run_calls_keeps_inv:
  assumes "alloc_inv s"
  shows "run_calls cs s \<noteq> Inl UndefinedBehaviour
       \<and> (\<forall>s'. run_calls cs s = Inr s' \<longrightarrow> alloc_inv s')"
  using assms
proof (induction cs arbitrary: s)
  case Nil
  then show ?case by simp
next
  case (Cons c cs)
  show ?case
  proof (cases "alloc_step c s")
    case (Inl f)
    with alloc_step_keeps_inv [OF Cons.prems, of c] show ?thesis
      by simp
  next
    case (Inr s1)
    with alloc_step_keeps_inv [OF Cons.prems, of c] have "alloc_inv s1"
      by simp
    from Cons.IH [OF this] Inr show ?thesis
      by simp
  qed
qed

text \<open>
  Claim C3. Start from the allocator of a new world with no live entity and run any
  sequence of creates and destroys. While the caller keeps its obligations the allocator
  never leaves its array, and whenever the run reaches a state (after the whole
  sequence, hence after each of its prefixes) the list of live identifiers has no
  repetition: no identifier is live twice.
\<close>

theorem live_ids_distinct:
  "run_calls cs (initial_manager, []) \<noteq> Inl UndefinedBehaviour
   \<and> (\<forall>m live. run_calls cs (initial_manager, []) = Inr (m, live) \<longrightarrow> distinct live)"
proof -
  note r = run_calls_keeps_inv [OF alloc_inv_initial, of cs]
  have "distinct live" if "run_calls cs (initial_manager, []) = Inr (m, live)" for m live
  proof -
    from r that have "alloc_inv (m, live)" by blast
    then show ?thesis by (simp add: alloc_inv_iff)
  qed
  with r show ?thesis by blast
qed


theorem live_ids_distinct_witness:
  "run_calls [Create, Create, Destroy 0, Create, Create] (initial_manager, [])
     = Inr (\<lparr>next_entity = 3, free_list = (replicate MAX_ENTITIES 0)[0 := 0], free_count = 0\<rparr>,
            [1, 0, 2])
   \<and> distinct [1, 0, 2 :: Entity]"
proof -
  have pos: "0 < MAX_ENTITIES" "Suc 0 < MAX_ENTITIES" "Suc (Suc 0) < MAX_ENTITIES"
    by (simp_all add: MAX_ENTITIES_def)
  have run: "run_calls [Create, Create, Destroy 0, Create, Create] (initial_manager, [])
     = Inr (\<lparr>next_entity = 3, free_list = (replicate MAX_ENTITIES 0)[0 := 0], free_count = 0\<rparr>,
            [1, 0, 2])"
    using pos
    by (simp add: initial_manager_def new_game_def mecs_entity_create_def
        mecs_entity_destroy_def array_get_def array_set_def)
  from live_ids_distinct [of "[Create, Create, Destroy 0, Create, Create]"] run
  have "distinct [1, 0, 2 :: Entity]"
    by blast
  with run show ?thesis by blast
qed

end
